theory Spec2Isabelle
  imports Main "HOL-Library.Word" "HOL-Library.Multiset" "HOL-Library.List_Lexorder"
    "HOL-Library.Extended_Nat"
begin

section \<open>Strings, regular expressions and numbers of the front end\<close>

text \<open>
  The front end is the TypeScript class \<open>TranscriptionAssistant\<close>; the revision that
  sorts the transcription files is the one at lines 2144 to 2972 of \<open>src/README.md\<close>
  (\<open>moveFileUp\<close> and \<open>moveFileDown\<close> at 2590, \<open>sortTranscriptionFiles\<close> at 2917,
  \<open>extractSequenceNumber\<close> at 2941). A string is a sequence of UTF-16 code units, and the regular expressions of
  \<open>extractSequenceNumber\<close> (none has the \<open>u\<close> flag) read it one code unit at a time.
  \<open>utf16\<close> writes an ASCII literal as such a string.

  Numbers are IEEE doubles. The only ones that arise here are the results of \<open>parseInt\<close>
  on runs of digits: the non-negative integers a double can hold, and \<open>Infinity\<close> for the
  runs beyond the range. They are the values of \<open>number\<close>, with the order of the doubles.
\<close>

type_synonym number = enat

type_synonym code_unit = "16 word"
type_synonym jstring = "code_unit list"

definition utf16 :: "string \<Rightarrow> jstring" where
  "utf16 s = map of_char s"

text \<open>The class \<open>\d\<close>: the ten ASCII digits.\<close>

definition is_digit :: "code_unit \<Rightarrow> bool" where
  "is_digit c \<longleftrightarrow> 0x30 \<le> c \<and> c \<le> 0x39"

text \<open>The class \<open>\s\<close>: the white space and line terminator code units of ECMAScript.\<close>

definition is_space :: "code_unit \<Rightarrow> bool" where
  "is_space c \<longleftrightarrow>
     (0x09 \<le> c \<and> c \<le> 0x0D) \<or> c = 0x20 \<or> c = 0xA0 \<or> c = 0x1680 \<or>
     (0x2000 \<le> c \<and> c \<le> 0x200A) \<or> c = 0x2028 \<or> c = 0x2029 \<or> c = 0x202F \<or>
     c = 0x205F \<or> c = 0x3000 \<or> c = 0xFEFF"

text \<open>The class \<open>[_\-\s]\<close> of patterns 2 and 3.\<close>

definition is_separator :: "code_unit \<Rightarrow> bool" where
  "is_separator c \<longleftrightarrow> c = 0x5F \<or> c = 0x2D \<or> is_space c"

text \<open>
  Matching under the \<open>i\<close> flag compares canonicalised code units: the simple upper-case
  mapping of Unicode, except that a code unit from 128 on never maps into ASCII. The
  mapping is written out for ASCII, for the Cyrillic block and for the historic Cyrillic
  letter forms at U+1C80; no other code unit maps onto a letter of the keywords of
  pattern 3, so the identity elsewhere does not change what the keywords match.
\<close>

definition canonicalize :: "code_unit \<Rightarrow> code_unit" where
  "canonicalize c =
     (if 0x61 \<le> c \<and> c \<le> 0x7A then c - 0x20
      else if 0x430 \<le> c \<and> c \<le> 0x44F then c - 0x20
      else if 0x450 \<le> c \<and> c \<le> 0x45F then c - 0x50
      else if c = 0x1C80 then 0x412
      else if c = 0x1C81 then 0x414
      else if c = 0x1C82 then 0x41E
      else if c = 0x1C83 then 0x421
      else if c = 0x1C84 \<or> c = 0x1C85 then 0x422
      else if c = 0x1C86 then 0x42A
      else c)"

text \<open>
  \<open>s.match(re)\<close> without the \<open>g\<close> flag tries the start positions from left to right
  and returns at the first one where the pattern matches. \<open>regex_match m s\<close> does that for
  a pattern given as the function \<open>m\<close> that matches at the start of its argument and
  returns the captured group.
\<close>

fun regex_match :: "(jstring \<Rightarrow> 'a option) \<Rightarrow> jstring \<Rightarrow> 'a option" where
  "regex_match m [] = m []"
| "regex_match m (c # cs) =
     (case m (c # cs) of Some r \<Rightarrow> Some r | None \<Rightarrow> regex_match m cs)"

text \<open>
  \<open>(\d+)$\<close> at a fixed start: the greedy \<open>\d+\<close> takes the whole digit run, and \<open>$\<close> (no
  \<open>m\<close> flag) holds at the end of the string only; giving digits back cannot help, for the
  next code unit is then a digit and not the end. So it matches exactly a non-empty rest
  made of digits, and captures it.
\<close>

definition digits_to_end :: "jstring \<Rightarrow> jstring option" where
  "digits_to_end t = (if t \<noteq> [] \<and> list_all is_digit t then Some t else None)"

text \<open>Pattern 1, \<open>/(\d+)$/\<close>.\<close>

definition pattern1 :: "jstring \<Rightarrow> jstring option" where
  "pattern1 t = digits_to_end t"

text \<open>Pattern 2, \<open>/[_\-\s](\d+)$/\<close>.\<close>

definition pattern2 :: "jstring \<Rightarrow> jstring option" where
  "pattern2 t =
     (case t of [] \<Rightarrow> None
      | c # r \<Rightarrow> if is_separator c then digits_to_end r else None)"

text \<open>
  The keywords of pattern 3, in the order of the alternation: part, \<open>chast'\<close>, segment,
  \<open>segment\<close> (Cyrillic), file, \<open>fajl\<close>, chapter, \<open>glava\<close>.
\<close>

definition keyword_alternatives :: "jstring list" where
  "keyword_alternatives =
     [utf16 ''part'',
      [0x447, 0x430, 0x441, 0x442, 0x44C],
      utf16 ''segment'',
      [0x441, 0x435, 0x433, 0x43C, 0x435, 0x43D, 0x442],
      utf16 ''file'',
      [0x444, 0x430, 0x439, 0x43B],
      utf16 ''chapter'',
      [0x433, 0x43B, 0x430, 0x432, 0x430]]"

text \<open>A keyword at the start of \<open>t\<close>, compared without case; the result is what follows it.\<close>

fun keyword_prefix :: "jstring \<Rightarrow> jstring \<Rightarrow> jstring option" where
  "keyword_prefix [] t = Some t"
| "keyword_prefix (k # ks) [] = None"
| "keyword_prefix (k # ks) (c # cs) =
     (if canonicalize k = canonicalize c then keyword_prefix ks cs else None)"

text \<open>
  Pattern 3, \<open>/(?:part|...|glava)[_\-\s]*(\d+)$/i\<close>. The alternatives are tried in order,
  the next one when the rest of the pattern fails after the current one. After a keyword
  the greedy \<open>[_\-\s]*\<close> takes the whole run of separators; giving one back would leave
  \<open>\d+\<close> in front of a separator.
\<close>

fun first_alternative :: "(jstring \<Rightarrow> 'a option) \<Rightarrow> jstring list \<Rightarrow> jstring \<Rightarrow> 'a option" where
  "first_alternative rest [] t = None"
| "first_alternative rest (kw # kws) t =
     (case (case keyword_prefix kw t of None \<Rightarrow> None | Some r \<Rightarrow> rest r) of
        Some d \<Rightarrow> Some d
      | None \<Rightarrow> first_alternative rest kws t)"

definition pattern3 :: "jstring \<Rightarrow> jstring option" where
  "pattern3 t = first_alternative (\<lambda>r. digits_to_end (dropWhile is_separator r)) keyword_alternatives t"

text \<open>Pattern 4, \<open>/(\d+)/\<close>: at a digit, the greedy \<open>\d+\<close> takes the whole run.\<close>

definition pattern4 :: "jstring \<Rightarrow> jstring option" where
  "pattern4 t = (case takeWhile is_digit t of [] \<Rightarrow> None | d # ds \<Rightarrow> Some (d # ds))"

text \<open>The integer that a run of ASCII digits denotes in base ten.\<close>

definition digit_value :: "code_unit \<Rightarrow> int" where
  "digit_value c = uint c - 48"

definition decimal_value :: "jstring \<Rightarrow> int" where
  "decimal_value ds = foldl (\<lambda>acc c. 10 * acc + digit_value c) 0 ds"

text \<open>
  The number of binary digits of a positive integer, by halving; the first argument says
  whether nothing is left.
\<close>

function bits_from :: "bool \<Rightarrow> int \<Rightarrow> nat" where
  "bits_from True n = 0"
| "bits_from False n = Suc (bits_from (n div 2 \<le> 0) (n div 2))"
  by pat_completeness auto
termination
  by (relation "measure (\<lambda>(stop, n). if stop then 0 else Suc (nat n))") auto

definition bit_length :: "int \<Rightarrow> nat" where
  "bit_length n = bits_from (n \<le> 0) n"

text \<open>
  The double for an integer \<open>n\<close> from \<open>2 ^ 53\<close> on: \<open>n\<close> is cut to its 53 leading bits
  \<open>q\<close>, rounded to nearest with ties to the even \<open>q\<close>, and what reaches \<open>2 ^ 1024\<close> is
  \<open>Infinity\<close>. (The language lets an engine read the digits after the twentieth as
  zeros; the engines behind the application round the whole run.)
\<close>

definition round_to_double :: "int \<Rightarrow> number" where
  "round_to_double n =
     (let e = bit_length n - 53;
          q = n div 2 ^ e;
          r = n mod 2 ^ e;
          q' = (if 2 ^ e < 2 * r \<or> (2 * r = 2 ^ e \<and> odd q) then q + 1 else q);
          v = q' * 2 ^ e
      in if v < 2 ^ 1024 then enat (nat v) else \<infinity>)"

text \<open>The double for a non-negative integer: itself below \<open>2 ^ 53\<close>, rounded from there on.\<close>

fun double_if_exact :: "bool \<Rightarrow> int \<Rightarrow> number" where
  "double_if_exact True n = enat (nat n)"
| "double_if_exact False n = round_to_double n"

definition double_of_int :: "int \<Rightarrow> number" where
  "double_of_int n = double_if_exact (n < 2 ^ 53) n"

text \<open>
  \<open>parseInt(match[1], 10)\<close> on a captured group, which is a non-empty run of ASCII
  digits: the double for the integer the run denotes in base ten.
\<close>

definition parseInt :: "jstring \<Rightarrow> number" where
  "parseInt ds = double_of_int (decimal_value ds)"

text \<open>
  \<open>filename.replace(/\.[^.]*$/, '')\<close>: the first position with a dot after which no dot
  follows (the class \<open>[^.]\<close> takes every other code unit) starts the match, which runs to
  the end and is replaced by nothing. A name without a dot is returned as it is.
\<close>

fun remove_extension :: "jstring \<Rightarrow> jstring" where
  "remove_extension [] = []"
| "remove_extension (c # cs) =
     (if c = 0x2E \<and> list_all (\<lambda>d. d \<noteq> 0x2E) cs then [] else c # remove_extension cs)"

section \<open>Sequence detection\<close>

text \<open>\<open>extractSequenceNumber\<close>; \<open>None\<close> is \<open>null\<close>.\<close>

definition extractSequenceNumber :: "jstring \<Rightarrow> number option" where
  "extractSequenceNumber filename =
     (let nameWithoutExt = remove_extension filename in
      case regex_match pattern1 nameWithoutExt of
        Some m \<Rightarrow> Some (parseInt m)
      | None \<Rightarrow>
     (case regex_match pattern2 nameWithoutExt of
        Some m \<Rightarrow> Some (parseInt m)
      | None \<Rightarrow>
     (case regex_match pattern3 nameWithoutExt of
        Some m \<Rightarrow> Some (parseInt m)
      | None \<Rightarrow>
     (case regex_match pattern4 nameWithoutExt of
        Some m \<Rightarrow> Some (parseInt m)
      | None \<Rightarrow> None))))"

text \<open>
  \<open>a.split(/[\\/]/)\<close>: the pieces of a path between slashes and backslashes; the empty
  string gives one empty piece.
\<close>

fun split_path :: "jstring \<Rightarrow> jstring list" where
  "split_path [] = [[]]"
| "split_path (c # cs) =
     (if c = 0x5C \<or> c = 0x2F then [] # split_path cs
      else (case split_path cs of [] \<Rightarrow> [[c]] | p # ps \<Rightarrow> (c # p) # ps))"

text \<open>
  \<open>a.split(/[\\/]/).pop() || ''\<close>: the last piece; \<open>pop\<close> on an empty array gives
  \<open>undefined\<close>, which \<open>||\<close> turns into the empty string, as it does the empty piece.
\<close>

definition file_name :: "jstring \<Rightarrow> jstring" where
  "file_name a = (case rev (split_path a) of [] \<Rightarrow> [] | p # ps \<Rightarrow> p)"

text \<open>
  \<open>fileA.localeCompare(fileB, 'ru', { numeric: true })\<close> is the collation of the
  platform's internationalisation library, which is not part of the repository: the
  comparison is a parameter \<open>lc\<close> of everything below. The library's comparison is
  consistent in the sense of \<open>Array.prototype.sort\<close>: reflexive, antisymmetric in sign
  and transitive.
\<close>

type_synonym collation = "jstring \<Rightarrow> jstring \<Rightarrow> int"

definition consistent :: "('a \<Rightarrow> 'a \<Rightarrow> int) \<Rightarrow> bool" where
  "consistent cmp \<longleftrightarrow>
     (\<forall>a. cmp a a = 0) \<and>
     (\<forall>a b. (cmp a b < 0) = (0 < cmp b a)) \<and>
     (\<forall>a b c. cmp a b \<le> 0 \<and> cmp b c \<le> 0 \<longrightarrow> cmp a c \<le> 0)"

text \<open>
  \<open>numberA - numberB\<close>, as \<open>sort\<close> reads it. Of what the comparison function returns,
  \<open>sort\<close> uses the sign, and takes \<open>NaN\<close> for 0. The difference of two doubles that hold
  integers has the sign of the difference of the integers, \<open>Infinity\<close> minus a finite number
  is positive, and \<open>Infinity - Infinity\<close> is \<open>NaN\<close>.
\<close>

definition number_difference :: "number \<Rightarrow> number \<Rightarrow> int" where
  "number_difference a b =
     (case a of
        enat x \<Rightarrow> (case b of enat y \<Rightarrow> int x - int y | \<infinity> \<Rightarrow> - 1)
      | \<infinity> \<Rightarrow> (case b of enat y \<Rightarrow> 1 | \<infinity> \<Rightarrow> 0))"

text \<open>The comparison function that \<open>sortTranscriptionFiles\<close> hands to \<open>sort\<close>.\<close>

definition compare_files :: "collation \<Rightarrow> jstring \<Rightarrow> jstring \<Rightarrow> int" where
  "compare_files lc a b =
     (let fileA = file_name a;
          fileB = file_name b;
          numberA = extractSequenceNumber fileA;
          numberB = extractSequenceNumber fileB
      in case (numberA, numberB) of
           (Some x, Some y) \<Rightarrow> number_difference x y
         | (Some x, None) \<Rightarrow> - 1
         | (None, Some y) \<Rightarrow> 1
         | (None, None) \<Rightarrow> lc fileA fileB)"

text \<open>
  \<open>Array.prototype.sort\<close> is stable, and with a consistent comparison function its result
  is the one stable sorted arrangement of the array, whatever algorithm the engine runs.
  The embedding computes it by insertion: an element goes in front of the first element
  it does not compare greater than, so that equal elements keep the order of the input.
\<close>

fun insert_sorted :: "('a \<Rightarrow> 'a \<Rightarrow> int) \<Rightarrow> 'a \<Rightarrow> 'a list \<Rightarrow> 'a list" where
  "insert_sorted cmp x [] = [x]"
| "insert_sorted cmp x (y # ys) =
     (if cmp x y \<le> 0 then x # y # ys else y # insert_sorted cmp x ys)"

definition array_sort :: "('a \<Rightarrow> 'a \<Rightarrow> int) \<Rightarrow> 'a list \<Rightarrow> 'a list" where
  "array_sort cmp xs = foldr (insert_sorted cmp) xs []"

definition sortTranscriptionFiles :: "collation \<Rightarrow> jstring list \<Rightarrow> jstring list" where
  "sortTranscriptionFiles lc filePaths = array_sort (compare_files lc) filePaths"

text \<open>The key under which a path is sorted: the sequence number of its file name.\<close>

definition sequence_key :: "jstring \<Rightarrow> number option" where
  "sequence_key a = extractSequenceNumber (file_name a)"

text \<open>
  What the detection phase hands to its callers \<open>selectTranscriptionFiles\<close> and
  \<open>handleTranscriptionFiles\<close>, which store the array in \<open>transcriptionFiles\<close> and enable
  the merge button. Neither \<open>sortTranscriptionFiles\<close> nor \<open>extractSequenceNumber\<close> nor
  the comparison function has a \<open>throw\<close>, and the array is all that is returned: every
  call ends in the right branch, and the list of warnings that comes with it is empty.
\<close>

datatype detection_error = MergeAborted "jstring list"

datatype detection_warning = LowConfidence

record detection =
  order :: "jstring list"
  warnings :: "detection_warning list"

definition detect_sequence :: "collation \<Rightarrow> jstring list \<Rightarrow> detection_error + detection" where
  "detect_sequence lc filePaths =
     Inr \<lparr>order = sortTranscriptionFiles lc filePaths, warnings = []\<rparr>"

text \<open>
  A sample collation for the concrete inputs below: the order of the code units. On
  ASCII letters of one case it agrees with the Russian collation.
\<close>

definition ordinal_collation :: collation where
  "ordinal_collation a b = (if a < b then - 1 else if a = b then 0 else 1)"

text \<open>
  The function obtained from \<open>extractSequenceNumber\<close> by dropping its second and third
  pattern, to compare it with.
\<close>

definition extractSequenceNumber_simplified :: "jstring \<Rightarrow> number option" where
  "extractSequenceNumber_simplified filename =
     (let nameWithoutExt = remove_extension filename in
      case regex_match pattern1 nameWithoutExt of
        Some m \<Rightarrow> Some (parseInt m)
      | None \<Rightarrow>
     (case regex_match pattern4 nameWithoutExt of
        Some m \<Rightarrow> Some (parseInt m)
      | None \<Rightarrow> None))"

text \<open>The first run of digits of a string: what follows the leading non-digits.\<close>

definition first_digit_run :: "jstring \<Rightarrow> jstring" where
  "first_digit_run s = takeWhile is_digit (dropWhile (\<lambda>c. \<not> is_digit c) s)"

subsection \<open>The rule of the design: the first pattern that matches all names\<close>

text \<open>
  The design document orders the files by the first rule, in priority order, that
  matches every file name, and by the collation when no rule does. The definitions below
  say that in terms of the four patterns of the code, to compare it with what
  \<open>sortTranscriptionFiles\<close> does.
\<close>

definition rule_key :: "(jstring \<Rightarrow> jstring option) \<Rightarrow> jstring \<Rightarrow> number option" where
  "rule_key p a =
     (case regex_match p (remove_extension (file_name a)) of
        None \<Rightarrow> None | Some m \<Rightarrow> Some (parseInt m))"

definition matches_all :: "(jstring \<Rightarrow> jstring option) \<Rightarrow> jstring list \<Rightarrow> bool" where
  "matches_all p filePaths = list_all (\<lambda>a. rule_key p a \<noteq> None) filePaths"

definition compare_by_rule :: "(jstring \<Rightarrow> jstring option) \<Rightarrow> jstring \<Rightarrow> jstring \<Rightarrow> int" where
  "compare_by_rule p a b =
     (case (rule_key p a, rule_key p b) of
        (Some x, Some y) \<Rightarrow> number_difference x y
      | _ \<Rightarrow> 0)"

definition order_by_common_rule :: "collation \<Rightarrow> jstring list \<Rightarrow> jstring list" where
  "order_by_common_rule lc filePaths =
     (if matches_all pattern1 filePaths then array_sort (compare_by_rule pattern1) filePaths
      else if matches_all pattern2 filePaths then array_sort (compare_by_rule pattern2) filePaths
      else if matches_all pattern3 filePaths then array_sort (compare_by_rule pattern3) filePaths
      else if matches_all pattern4 filePaths then array_sort (compare_by_rule pattern4) filePaths
      else array_sort (\<lambda>a b. lc (file_name a) (file_name b)) filePaths)"

text \<open>The number of the first pattern that matches the name of one file, if any.\<close>

definition first_matching_rule :: "jstring \<Rightarrow> nat option" where
  "first_matching_rule a =
     (if rule_key pattern1 a \<noteq> None then Some 1
      else if rule_key pattern2 a \<noteq> None then Some 2
      else if rule_key pattern3 a \<noteq> None then Some 3
      else if rule_key pattern4 a \<noteq> None then Some 4
      else None)"

text \<open>The pattern with a given number.\<close>

definition priority_rule :: "nat \<Rightarrow> jstring \<Rightarrow> jstring option" where
  "priority_rule r =
     (if r = 1 then pattern1 else if r = 2 then pattern2
      else if r = 3 then pattern3 else pattern4)"

text \<open>
  The order in which two keyed or unkeyed files may follow each other in a sorted list:
  a smaller number first, a file with a number before a file without.
\<close>

definition key_before :: "jstring \<Rightarrow> jstring \<Rightarrow> bool" where
  "key_before a b =
     (case (sequence_key a, sequence_key b) of
        (Some x, Some y) \<Rightarrow> x \<le> y
      | (Some x, None) \<Rightarrow> True
      | (None, Some y) \<Rightarrow> False
      | (None, None) \<Rightarrow> True)"

section \<open>Reordering by hand\<close>

text \<open>
  \<open>transcriptionFiles\<close> is a JavaScript array. Reading it outside of its bounds gives
  \<open>undefined\<close>, and \<open>splice\<close> can store that value: an entry is \<open>None\<close> for \<open>undefined\<close>
  or \<open>Some\<close> path. \<open>splice(start, ...)\<close> counts a negative start from the end and clamps
  the start into the array. The index comes from the buttons of the list, which pass the
  position of their entry; it is an integer.
\<close>

definition element_at :: "'a option list \<Rightarrow> int \<Rightarrow> 'a option" where
  "element_at xs i = (if 0 \<le> i \<and> i < int (length xs) then xs ! nat i else None)"

definition splice_start :: "nat \<Rightarrow> int \<Rightarrow> nat" where
  "splice_start len start =
     (if start < 0 then nat (max (int len + start) 0) else min (nat start) len)"

text \<open>\<open>xs.splice(start, 1)\<close>.\<close>

definition splice_remove :: "int \<Rightarrow> 'a list \<Rightarrow> 'a list" where
  "splice_remove start xs =
     (let s = splice_start (length xs) start in take s xs @ drop (Suc s) xs)"

text \<open>\<open>xs.splice(start, 0, item)\<close>.\<close>

definition splice_insert :: "int \<Rightarrow> 'a \<Rightarrow> 'a list \<Rightarrow> 'a list" where
  "splice_insert start item xs =
     (let s = splice_start (length xs) start in take s xs @ item # drop s xs)"

definition moveFileUp :: "int \<Rightarrow> 'a option list \<Rightarrow> 'a option list" where
  "moveFileUp index transcriptionFiles =
     (if index > 0
      then let file = element_at transcriptionFiles index
           in splice_insert (index - 1) file (splice_remove index transcriptionFiles)
      else transcriptionFiles)"

definition moveFileDown :: "int \<Rightarrow> 'a option list \<Rightarrow> 'a option list" where
  "moveFileDown index transcriptionFiles =
     (if index < int (length transcriptionFiles) - 1
      then let file = element_at transcriptionFiles index
           in splice_insert (index + 1) file (splice_remove index transcriptionFiles)
      else transcriptionFiles)"

section \<open>The merge engine\<close>

text \<open>
  The front end hands the ordered \<open>transcriptionFiles\<close> to the back end command
  \<open>merge_transcriptions\<close>, whose Rust source is not among the sources at hand
  (\<open>src-tauri/src/main.rs\<close>, "not yet implemented"). Everything in this section is
  written from the design document instead, for the SRT grammar and with the optional
  features (gap filling, collapsing of duplicates, part markers, speaker labels) switched
  off, as they are by default. Times are whole milliseconds.
\<close>

text \<open>
  Modelled from the spec: the data model of the missing merge engine, section 3: a
  ContentBlock with its start, its optional end and its text lines.
\<close>

record content_block =
  block_start :: nat
  block_end :: "nat option"
  block_text :: "string list"

text \<open>
  Modelled from the spec: the warnings of the missing merge engine, sections 4.1, 4.3, 4.5
  and 7; \<open>Overlap i\<close> and \<open>Gap i\<close> name the first block of the pair.
\<close>

datatype merge_warning =
  DroppedLine | InvalidToken | UnknownDuration | Overlap nat | Gap nat

text \<open>
  Modelled from the spec: a SourceFile of the missing merge engine as it is handed in:
  its identifier, the lines of its text, the duration hint and the manual offset that may
  come with it (sections 3, 4.3, 4.4 and 6).
\<close>

record source_file =
  file_identifier :: jstring
  file_content :: "string list"
  duration_hint :: "nat option"
  manual_offset :: "nat option"

text \<open>
  Modelled from the spec: the MergedDocument of the missing merge engine, section 3: the
  blocks with absolute times and the warnings.
\<close>

record merged_document =
  document_blocks :: "content_block list"
  document_warnings :: "merge_warning list"

text \<open>
  Modelled from the spec: the number a run of decimal digits denotes, for the missing
  Timestamp Grammar Parser of section 4.1.
\<close>

definition decimal :: "string \<Rightarrow> nat option" where
  "decimal s =
     (if s \<noteq> [] \<and> list_all (\<lambda>c. 48 \<le> (of_char c :: nat) \<and> (of_char c :: nat) \<le> 57) s
      then Some (foldl (\<lambda>acc c. 10 * acc + (of_char c - 48)) 0 s)
      else None)"

text \<open>
  Modelled from the spec: the missing Timestamp Grammar Parser of section 4.1 on one SRT
  time \<open>HH:MM:SS,mmm\<close>, in milliseconds.
\<close>

definition parse_srt_time :: "string \<Rightarrow> nat option" where
  "parse_srt_time s =
     (if length s = 12 \<and> s ! 2 = CHR '':'' \<and> s ! 5 = CHR '':'' \<and> s ! 8 = CHR '',''
      then (case (decimal (take 2 s), decimal (take 2 (drop 3 s)),
                  decimal (take 2 (drop 6 s)), decimal (drop 9 s)) of
              (Some h, Some m, Some sec, Some ms) \<Rightarrow> Some (((h * 60 + m) * 60 + sec) * 1000 + ms)
            | _ \<Rightarrow> None)
      else None)"

text \<open>
  Modelled from the spec: the missing Timestamp Grammar Parser of section 4.1 on one
  line: the SRT token \<open>start --> end\<close>.
\<close>

definition parse_srt_line :: "string \<Rightarrow> (nat \<times> nat) option" where
  "parse_srt_line l =
     (if length l = 29 \<and> take 5 (drop 12 l) = '' --> ''
      then (case (parse_srt_time (take 12 l), parse_srt_time (drop 17 l)) of
              (Some s, Some e) \<Rightarrow> Some (s, e)
            | _ \<Rightarrow> None)
      else None)"

text \<open>
  Modelled from the spec: the missing Timestamp Grammar Parser of section 4.1 on the
  lines of a file. A token starts a block; a token whose end is before its start is
  discarded with a warning (section 3); any other line is continuation text of the
  block before it, or dropped with a warning when there is none.
\<close>

fun parse_lines ::
  "string list \<Rightarrow> content_block list \<times> merge_warning list \<Rightarrow>
     content_block list \<times> merge_warning list" where
  "parse_lines [] acc = acc"
| "parse_lines (l # ls) (bs, ws) =
     (case parse_srt_line l of
        Some (s, e) \<Rightarrow>
          if s \<le> e
          then parse_lines ls
                 (bs @ [\<lparr>block_start = s, block_end = Some e, block_text = []\<rparr>], ws)
          else parse_lines ls (bs, ws @ [InvalidToken])
      | None \<Rightarrow>
          if bs = [] then parse_lines ls (bs, ws @ [DroppedLine])
          else parse_lines ls
                 (butlast bs @ [(last bs)\<lparr>block_text := block_text (last bs) @ [l]\<rparr>], ws))"

text \<open>
  Modelled from the spec: the missing Duration Resolver of section 4.3: the hint when
  there is one, else the greatest end time, else the greatest start time, else zero with
  a warning.
\<close>

definition resolve_duration :: "nat option \<Rightarrow> content_block list \<Rightarrow> nat \<times> merge_warning list" where
  "resolve_duration hint bs =
     (case hint of
        Some h \<Rightarrow> (h, [])
      | None \<Rightarrow>
          (case List.map_filter block_end bs of
             e # es \<Rightarrow> (fold max es e, [])
           | [] \<Rightarrow>
               (case map block_start bs of
                  s # ss \<Rightarrow> (fold max ss s, [])
                | [] \<Rightarrow> (0, [UnknownDuration]))))"

text \<open>
  Modelled from the spec: the computed chain of the missing Offset Accumulator of section
  4.4: the running sum of the durations of the files before, from zero.
\<close>

fun running_offsets :: "nat \<Rightarrow> nat list \<Rightarrow> nat list" where
  "running_offsets acc [] = []"
| "running_offsets acc (d # ds) = acc # running_offsets (acc + d) ds"

text \<open>
  Modelled from the spec: the missing Offset Accumulator of section 4.4 on the files in
  sequence order, each given by its resolved duration and its manual offset, if any. A
  manual offset replaces the computed value for its own file only; the files after it
  keep the computed chain.
\<close>

definition offset_accumulator :: "(nat \<times> nat option) list \<Rightarrow> nat list" where
  "offset_accumulator files =
     map (\<lambda>(computed, override). case override of None \<Rightarrow> computed | Some m \<Rightarrow> m)
       (zip (running_offsets 0 (map fst files)) (map snd files))"

text \<open>
  Modelled from the spec: the missing Merge Assembler of section 4.5 on one block: the
  file's offset is added to the start and, when present, to the end.
\<close>

definition shift_block :: "nat \<Rightarrow> content_block \<Rightarrow> content_block" where
  "shift_block offset b =
     b\<lparr>block_start := block_start b + offset,
       block_end := (case block_end b of None \<Rightarrow> None | Some e \<Rightarrow> Some (e + offset))\<rparr>"

text \<open>
  Modelled from the spec: the repair pass of the missing Merge Assembler of section 4.5,
  from block \<open>i\<close> on: an overlap where a block starts before the end (the start, when
  there is no end) of the block before it; a gap where the threshold is switched on
  (not zero) and the distance from that end is greater.
\<close>

fun repair_warnings :: "nat \<Rightarrow> nat \<Rightarrow> content_block list \<Rightarrow> merge_warning list" where
  "repair_warnings threshold i (b # c # bs) =
     (let reference = (case block_end b of None \<Rightarrow> block_start b | Some e \<Rightarrow> e) in
      (if block_start c < reference then [Overlap i] else []) @
      (if threshold \<noteq> 0 \<and> block_end b \<noteq> None \<and> block_start c - reference > threshold
       then [Gap i] else []) @
      repair_warnings threshold (Suc i) (c # bs))"
| "repair_warnings threshold i bs = []"

text \<open>
  Modelled from the spec: the operation \<open>detect_and_merge\<close> of the missing merge engine,
  section 6, with the gap threshold as its one option. The files are put in sequence
  order by the comparison of \<open>sortTranscriptionFiles\<close>, parsed, given durations and
  offsets, and their shifted blocks are appended file after file.
\<close>

definition detect_and_merge :: "collation \<Rightarrow> nat \<Rightarrow> source_file list \<Rightarrow> merged_document" where
  "detect_and_merge lc gap_threshold_ms files =
     (let ordered = array_sort (\<lambda>f g. compare_files lc (file_identifier f) (file_identifier g)) files;
          parsed = map (\<lambda>f. parse_lines (file_content f) ([], [])) ordered;
          resolved = map (\<lambda>(f, p). resolve_duration (duration_hint f) (fst p)) (zip ordered parsed);
          offsets = offset_accumulator (zip (map fst resolved) (map manual_offset ordered));
          merged = concat (map (\<lambda>(offset, p). map (shift_block offset) (fst p)) (zip offsets parsed))
      in \<lparr>document_blocks = merged,
          document_warnings =
            concat (map snd parsed) @ concat (map snd resolved) @
            repair_warnings gap_threshold_ms 0 merged\<rparr>)"

text \<open>
  Modelled from the spec: the character of a decimal digit, for the missing Output
  Formatter of section 4.6.
\<close>

definition digit_char :: "nat \<Rightarrow> char" where
  "digit_char d = ''0123456789'' ! (d mod 10)"

text \<open>
  Modelled from the spec: the decimal digits of a number, for the missing Output
  Formatter of section 4.6.
\<close>

fun decimal_string :: "nat \<Rightarrow> string" where
  "decimal_string n =
     (if n < 10 then [digit_char n] else decimal_string (n div 10) @ [digit_char (n mod 10)])"

text \<open>
  Modelled from the spec: a field padded with zeros to two digits, for the missing
  Output Formatter of section 4.6.
\<close>

definition two_digits :: "nat \<Rightarrow> string" where
  "two_digits n = (if n < 10 then CHR ''0'' # decimal_string n else decimal_string n)"

text \<open>
  Modelled from the spec: a field padded with zeros to three digits, for the missing
  Output Formatter of section 4.6.
\<close>

definition three_digits :: "nat \<Rightarrow> string" where
  "three_digits n =
     (if n < 10 then ''00'' @ decimal_string n
      else if n < 100 then CHR ''0'' # decimal_string n
      else decimal_string n)"

text \<open>
  Modelled from the spec: the missing Output Formatter of section 4.6 on one SRT time:
  hours, two-digit minutes and seconds, a comma and three-digit milliseconds.
\<close>

definition format_srt_time :: "nat \<Rightarrow> string" where
  "format_srt_time t =
     two_digits (t div 3600000) @ '':'' @ two_digits (t div 60000 mod 60) @ '':'' @
     two_digits (t div 1000 mod 60) @ '','' @ three_digits (t mod 1000)"

text \<open>
  Modelled from the spec: the first file of the scenario of section 8, which is not part
  of the sources, without hint and without manual offset.
\<close>

definition a_1_srt :: source_file where
  "a_1_srt =
     \<lparr>file_identifier = utf16 ''a_1.srt'',
      file_content = [''00:00:00,000 --> 00:00:04,000'', ''Hello''],
      duration_hint = None, manual_offset = None\<rparr>"

text \<open>
  Modelled from the spec: the second file of the scenario of section 8, which is not part
  of the sources, without hint and without manual offset.
\<close>

definition a_2_srt :: source_file where
  "a_2_srt =
     \<lparr>file_identifier = utf16 ''a_2.srt'',
      file_content = [''00:00:00,000 --> 00:00:03,000'', ''World''],
      duration_hint = None, manual_offset = None\<rparr>"

section \<open>Properties of the sequence number\<close>

lemma separator_not_digit: "is_separator c \<Longrightarrow> \<not> is_digit c"
  unfolding is_separator_def is_digit_def is_space_def by unat_arith

lemma canonicalize_digit: "is_digit c \<Longrightarrow> canonicalize c = c"
  unfolding canonicalize_def is_digit_def by (simp split: if_splits) unat_arith

lemma canonicalize_is_digit: "is_digit (canonicalize c) \<Longrightarrow> is_digit c"
  unfolding canonicalize_def is_digit_def
  by (simp split: if_splits; unat_arith)

lemma keyword_letters_not_digits:
  "\<forall>kw \<in> set keyword_alternatives. kw \<noteq> [] \<and> (\<forall>k \<in> set kw. \<not> is_digit k)"
  by code_simp

lemma canonical_match_not_digit:
  assumes "canonicalize k = canonicalize c" and "\<not> is_digit k"
  shows "\<not> is_digit c"
proof
  assume d: "is_digit c"
  then have "canonicalize c = c" by (rule canonicalize_digit)
  with assms(1) d have "is_digit (canonicalize k)" by simp
  then have "is_digit k" by (rule canonicalize_is_digit)
  with assms(2) show False by simp
qed

lemma regex_match_SomeD:
  "regex_match m s = Some r \<Longrightarrow> \<exists>pre t. s = pre @ t \<and> m t = Some r"
proof (induction s)
  case Nil
  then show ?case by simp
next
  case (Cons c cs)
  show ?case
  proof (cases "m (c # cs)")
    case None
    with Cons.prems have "regex_match m cs = Some r" by simp
    then obtain pre t where "cs = pre @ t" "m t = Some r"
      using Cons.IH by blast
    then have "c # cs = (c # pre) @ t \<and> m t = Some r" by simp
    then show ?thesis by blast
  next
    case (Some a)
    with Cons.prems have "c # cs = [] @ (c # cs) \<and> m (c # cs) = Some r" by simp
    then show ?thesis by blast
  qed
qed

lemma regex_match_pattern1:
  assumes "d \<noteq> []" and "list_all is_digit d" and "pre = [] \<or> \<not> is_digit (last pre)"
  shows "regex_match pattern1 (pre @ d) = Some d"
  using assms(3)
proof (induction pre)
  case Nil
  from assms(1) obtain x xs where "d = x # xs" by (cases d) auto
  with assms(2) show ?case by (simp add: pattern1_def digits_to_end_def)
next
  case (Cons c pre)
  from Cons.prems have nd: "\<not> is_digit (last (c # pre))" by simp
  have "last (c # pre) \<in> set (c # pre @ d)" by (cases pre) auto
  with nd have "\<not> list_all is_digit (c # pre @ d)"
    by (auto simp: list_all_iff)
  then have "pattern1 (c # pre @ d) = None"
    by (simp add: pattern1_def digits_to_end_def)
  moreover have "pre = [] \<or> \<not> is_digit (last pre)" using nd by auto
  ultimately show ?case using Cons.IH by simp
qed

lemma regex_match_pattern1_SomeD:
  assumes "regex_match pattern1 s = Some d"
  shows "s \<noteq> [] \<and> is_digit (last s)"
proof -
  from regex_match_SomeD [OF assms] obtain pre t where s: "s = pre @ t" and p: "pattern1 t = Some d"
    by blast
  from p have t1: "t \<noteq> []"
    unfolding pattern1_def digits_to_end_def by (simp split: if_splits)
  from p have t2: "list_all is_digit t"
    unfolding pattern1_def digits_to_end_def by (simp split: if_splits)
  from t1 have "last t \<in> set t" by simp
  with t2 have "is_digit (last t)" unfolding list_all_iff by blast
  with s t1 show ?thesis by simp
qed

lemma digits_to_end_SomeD:
  "digits_to_end t = Some d \<Longrightarrow> d = t \<and> d \<noteq> [] \<and> list_all is_digit d"
  unfolding digits_to_end_def by (cases "t \<noteq> [] \<and> list_all is_digit t") auto

lemma pattern2_SomeD:
  assumes "pattern2 t = Some d"
  shows "\<exists>c. t = c # d \<and> is_separator c \<and> d \<noteq> [] \<and> list_all is_digit d"
proof (cases t)
  case Nil
  with assms show ?thesis by (simp add: pattern2_def)
next
  case (Cons c r)
  show ?thesis
  proof (cases "is_separator c")
    case True
    with assms Cons have "digits_to_end r = Some d" by (simp add: pattern2_def)
    then have "d = r \<and> d \<noteq> [] \<and> list_all is_digit d" by (rule digits_to_end_SomeD)
    with Cons True show ?thesis by blast
  next
    case False
    with assms Cons show ?thesis by (simp add: pattern2_def)
  qed
qed

lemma pattern2_subsumed:
  assumes "regex_match pattern2 s = Some d"
  shows "regex_match pattern1 s = Some d"
proof -
  from regex_match_SomeD [OF assms] obtain pre t where s: "s = pre @ t" and t: "pattern2 t = Some d"
    by blast
  from pattern2_SomeD [OF t] obtain c where tc: "t = c # d" and c: "is_separator c"
    and d: "d \<noteq> []" "list_all is_digit d"
    by blast
  from c have nd: "pre @ [c] = [] \<or> \<not> is_digit (last (pre @ [c]))"
    by (simp add: separator_not_digit)
  have "regex_match pattern1 ((pre @ [c]) @ d) = Some d"
    using d nd by (rule regex_match_pattern1)
  with s tc show ?thesis by simp
qed

lemma keyword_prefix_SomeD:
  "keyword_prefix kw t = Some r \<Longrightarrow> \<forall>k \<in> set kw. \<not> is_digit k \<Longrightarrow>
     \<exists>u. t = u @ r \<and> length u = length kw \<and> (\<forall>c \<in> set u. \<not> is_digit c)"
proof (induction kw t rule: keyword_prefix.induct)
  case (1 t)
  then show ?case by simp
next
  case (2 k ks)
  then show ?case by simp
next
  case (3 k ks c cs)
  from "3.prems" have eq: "canonicalize k = canonicalize c"
    and rest: "keyword_prefix ks cs = Some r"
    by (auto split: if_splits)
  from "3.prems"(2) have "\<not> is_digit k" by simp
  with eq have c: "\<not> is_digit c" by (rule canonical_match_not_digit)
  from "3.IH" [OF eq rest] "3.prems"(2)
  obtain u where "cs = u @ r" "length u = length ks" "\<forall>c \<in> set u. \<not> is_digit c"
    by auto
  with c have "c # cs = (c # u) @ r \<and> length (c # u) = length (k # ks)
      \<and> (\<forall>x \<in> set (c # u). \<not> is_digit x)" by simp
  then show ?case by blast
qed

lemma first_alternative_SomeD:
  "first_alternative rest kws t = Some d \<Longrightarrow>
     \<exists>kw \<in> set kws. \<exists>r. keyword_prefix kw t = Some r \<and> rest r = Some d"
  by (induction kws) (auto split: option.splits)

lemma pattern3_SomeD:
  assumes "pattern3 t = Some d"
  shows "\<exists>u. t = u @ d \<and> u \<noteq> [] \<and> \<not> is_digit (last u) \<and> d \<noteq> [] \<and> list_all is_digit d"
proof -
  from assms obtain kw r where kw: "kw \<in> set keyword_alternatives"
    and r: "keyword_prefix kw t = Some r"
    and d: "digits_to_end (dropWhile is_separator r) = Some d"
    unfolding pattern3_def by (blast dest: first_alternative_SomeD)
  from kw keyword_letters_not_digits have kwne: "kw \<noteq> []" and "\<forall>k \<in> set kw. \<not> is_digit k"
    by auto
  with r obtain u where u: "t = u @ r" "length u = length kw" "\<forall>c \<in> set u. \<not> is_digit c"
    using keyword_prefix_SomeD by blast
  from u(2) kwne have une: "u \<noteq> []" by auto
  from d have dd: "dropWhile is_separator r = d" "d \<noteq> []" "list_all is_digit d"
    by (auto dest: digits_to_end_SomeD)
  let ?w = "takeWhile is_separator r"
  have r_eq: "r = ?w @ d" using dd(1) takeWhile_dropWhile_id [of is_separator r] by simp
  have "\<not> is_digit (last (u @ ?w))"
  proof (cases "?w = []")
    case True
    with une u(3) show ?thesis by simp
  next
    case False
    then have "last ?w \<in> set ?w" by simp
    then have "is_separator (last ?w)" by (meson set_takeWhileD)
    with False show ?thesis by (simp add: separator_not_digit)
  qed
  moreover have "t = (u @ ?w) @ d" using u(1) r_eq by simp
  moreover have "u @ ?w \<noteq> []" using une by simp
  ultimately show ?thesis using dd by blast
qed

lemma pattern3_subsumed:
  assumes "regex_match pattern3 s = Some d"
  shows "regex_match pattern1 s = Some d"
proof -
  from regex_match_SomeD [OF assms] obtain pre t where s: "s = pre @ t" and t: "pattern3 t = Some d"
    by blast
  from pattern3_SomeD [OF t] obtain u where u: "t = u @ d" "u \<noteq> []" "\<not> is_digit (last u)"
    and d: "d \<noteq> []" "list_all is_digit d" by blast
  from u(2,3) have nd: "pre @ u = [] \<or> \<not> is_digit (last (pre @ u))" by simp
  have "regex_match pattern1 ((pre @ u) @ d) = Some d"
    using d nd by (rule regex_match_pattern1)
  with s u(1) show ?thesis by simp
qed

lemma pattern1_None_imp:
  assumes "regex_match pattern1 s = None"
  shows "regex_match pattern2 s = None \<and> regex_match pattern3 s = None"
proof -
  have "regex_match pattern2 s = None"
  proof (cases "regex_match pattern2 s")
    case (Some d)
    then have "regex_match pattern1 s = Some d" by (rule pattern2_subsumed)
    with assms show ?thesis by simp
  qed simp
  moreover have "regex_match pattern3 s = None"
  proof (cases "regex_match pattern3 s")
    case (Some d)
    then have "regex_match pattern1 s = Some d" by (rule pattern3_subsumed)
    with assms show ?thesis by simp
  qed simp
  ultimately show ?thesis by simp
qed

lemma regex_match_pattern4:
  "regex_match pattern4 s =
     (if \<exists>c \<in> set s. is_digit c
      then Some (takeWhile is_digit (dropWhile (\<lambda>c. \<not> is_digit c) s)) else None)"
proof (induction s)
  case Nil
  show ?case by (simp add: pattern4_def)
next
  case (Cons c cs)
  show ?case
  proof (cases "is_digit c")
    case True
    then show ?thesis by (simp add: pattern4_def)
  next
    case False
    then have "pattern4 (c # cs) = None" by (simp add: pattern4_def)
    with False Cons.IH show ?thesis by simp
  qed
qed


lemma extract_simplified:
  "extractSequenceNumber filename = extractSequenceNumber_simplified filename"
proof (cases "regex_match pattern1 (remove_extension filename)")
  case None
  with pattern1_None_imp [OF None] show ?thesis
    by (simp add: extractSequenceNumber_def extractSequenceNumber_simplified_def)
next
  case (Some d)
  then show ?thesis
    by (simp add: extractSequenceNumber_def extractSequenceNumber_simplified_def)
qed

text \<open>
  Claim C9: \<open>extractSequenceNumber\<close> returns, on every file name, what the function
  with only the first and the fourth pattern returns; whatever string the second or the
  third pattern matches, the first pattern matches too, with the same captured digits, so
  that the second and the third pattern never decide the key.
\<close>

theorem second_and_third_pattern_redundant:
  "extractSequenceNumber filename = extractSequenceNumber_simplified filename \<and>
   (\<forall>s d. regex_match pattern2 s = Some d \<longrightarrow> regex_match pattern1 s = Some d) \<and>
   (\<forall>s d. regex_match pattern3 s = Some d \<longrightarrow> regex_match pattern1 s = Some d)"
  using extract_simplified pattern2_subsumed pattern3_subsumed by blast

theorem second_and_third_pattern_redundant_witness:
  "regex_match pattern2 (utf16 ''rec part_12'') = Some (utf16 ''12'') \<and>
   regex_match pattern3 (utf16 ''rec part_12'') = Some (utf16 ''12'') \<and>
   regex_match pattern1 (utf16 ''rec part_12'') = Some (utf16 ''12'') \<and>
   extractSequenceNumber (utf16 ''rec part_12.txt'') = Some 12 \<and>
   extractSequenceNumber_simplified (utf16 ''rec part_12.txt'') = Some 12"
proof -
  have p2: "regex_match pattern2 (utf16 ''rec part_12'') = Some (utf16 ''12'')"
    by code_simp
  have p3: "regex_match pattern3 (utf16 ''rec part_12'') = Some (utf16 ''12'')"
    by code_simp
  have e: "extractSequenceNumber (utf16 ''rec part_12.txt'') = Some 12"
    by code_simp
  note t = second_and_third_pattern_redundant [of "utf16 ''rec part_12.txt''"]
  from t p2 have p1: "regex_match pattern1 (utf16 ''rec part_12'') = Some (utf16 ''12'')"
    by blast
  from t e have "extractSequenceNumber_simplified (utf16 ''rec part_12.txt'') = Some 12"
    by simp
  with p1 p2 p3 e show ?thesis by blast
qed

text \<open>
  Claim C8: when the name without its extension contains a digit, \<open>extractSequenceNumber\<close>
  returns a number and not \<open>null\<close>; when moreover the name does not end in a digit, the
  number is that of the first run of digits of the name. An instance is the name
  \<open>2023_recording.txt\<close>, with the key 2023.
\<close>

theorem digit_gives_number:
  assumes "\<exists>c \<in> set (remove_extension filename). is_digit c"
  shows "(\<exists>n. extractSequenceNumber filename = Some n) \<and>
         (\<not> is_digit (last (remove_extension filename)) \<longrightarrow>
            extractSequenceNumber filename =
              Some (parseInt (first_digit_run (remove_extension filename))))"
proof -
  let ?s = "remove_extension filename"
  from assms have p4: "regex_match pattern4 ?s = Some (first_digit_run ?s)"
    by (simp add: regex_match_pattern4 first_digit_run_def)
  have some: "\<exists>n. extractSequenceNumber filename = Some n"
    using p4 by (simp add: extract_simplified extractSequenceNumber_simplified_def Let_def
        split: option.split)
  have "extractSequenceNumber filename = Some (parseInt (first_digit_run ?s))"
    if nd: "\<not> is_digit (last ?s)"
  proof -
    have "regex_match pattern1 ?s = None"
    proof (cases "regex_match pattern1 ?s")
      case (Some d)
      then have "is_digit (last ?s)" using regex_match_pattern1_SomeD by blast
      with nd show ?thesis by simp
    qed simp
    with p4 show ?thesis
      by (simp add: extract_simplified extractSequenceNumber_simplified_def Let_def)
  qed
  with some show ?thesis by blast
qed

theorem digit_gives_number_witness:
  "(\<exists>c \<in> set (remove_extension (utf16 ''2023_recording.txt'')). is_digit c) \<and>
   \<not> is_digit (last (remove_extension (utf16 ''2023_recording.txt''))) \<and>
   extractSequenceNumber (utf16 ''2023_recording.txt'') = Some 2023"
proof -
  have h: "\<exists>c \<in> set (remove_extension (utf16 ''2023_recording.txt'')). is_digit c"
    by code_simp
  have nd: "\<not> is_digit (last (remove_extension (utf16 ''2023_recording.txt'')))"
    by code_simp
  have v: "parseInt (first_digit_run (remove_extension (utf16 ''2023_recording.txt''))) = 2023"
    by code_simp
  from digit_gives_number [OF h] nd v
  have "extractSequenceNumber (utf16 ''2023_recording.txt'') = Some 2023" by simp
  with h nd show ?thesis by blast
qed

section \<open>Properties of the sort\<close>

text \<open>
  Numbers are doubles: the runs \<open>9007199254740993\<close> and \<open>9007199254740992\<close>, one above
  \<open>2 ^ 53\<close> and \<open>2 ^ 53\<close> itself, are the same number.
\<close>

lemma long_runs_are_rounded:
  "parseInt (utf16 ''9007199254740993'') = parseInt (utf16 ''9007199254740992'')"
  by (simp add: parseInt_def decimal_value_def digit_value_def utf16_def double_of_int_def
      round_to_double_def bit_length_def Let_def)

lemma mset_insert_sorted: "mset (insert_sorted cmp x ys) = add_mset x (mset ys)"
  by (induction ys) simp_all

lemma mset_array_sort: "mset (array_sort cmp xs) = mset xs"
  unfolding array_sort_def by (induction xs) (simp_all add: mset_insert_sorted)

lemma set_array_sort: "set (array_sort cmp xs) = set xs"
  using mset_array_sort [of cmp xs] by (metis set_mset_mset)

lemma set_insert_sorted: "set (insert_sorted cmp x ys) = insert x (set ys)"
  using mset_insert_sorted [of cmp x ys] by (metis set_mset_mset set_mset_add_mset_insert)

lemma array_sort_Cons: "array_sort cmp (x # xs) = insert_sorted cmp x (array_sort cmp xs)"
  by (simp add: array_sort_def)

lemma array_sort_Nil: "array_sort cmp [] = []"
  by (simp add: array_sort_def)

lemma insert_sorted_cong:
  "\<forall>y \<in> set ys. cmp x y = cmp' x y \<Longrightarrow> insert_sorted cmp x ys = insert_sorted cmp' x ys"
  by (induction ys) simp_all

lemma array_sort_cong:
  "\<forall>a \<in> set xs. \<forall>b \<in> set xs. cmp a b = cmp' a b \<Longrightarrow> array_sort cmp xs = array_sort cmp' xs"
proof (induction xs)
  case Nil
  show ?case by (simp add: array_sort_Nil)
next
  case (Cons x xs)
  then have "array_sort cmp xs = array_sort cmp' xs" by simp
  moreover from Cons.prems have "\<forall>y \<in> set (array_sort cmp' xs). cmp x y = cmp' x y"
    by (simp add: set_array_sort)
  ultimately show ?case by (simp add: array_sort_Cons insert_sorted_cong)
qed

lemma sorted_wrt_insert_sorted:
  assumes le: "\<And>y. cmp x y \<le> 0 \<Longrightarrow> R x y"
    and gt: "\<And>y. \<not> cmp x y \<le> 0 \<Longrightarrow> R y x"
    and trans: "\<And>a b c. R a b \<Longrightarrow> R b c \<Longrightarrow> R a c"
    and sorted: "sorted_wrt R ys"
  shows "sorted_wrt R (insert_sorted cmp x ys)"
  using sorted
proof (induction ys)
  case Nil
  show ?case by simp
next
  case (Cons y ys)
  show ?case
  proof (cases "cmp x y \<le> 0")
    case True
    then have xy: "R x y" by (rule le)
    have "\<forall>z \<in> set ys. R x z"
    proof
      fix z assume "z \<in> set ys"
      with Cons.prems have "R y z" by simp
      with xy show "R x z" by (rule trans)
    qed
    with True xy Cons.prems show ?thesis by simp
  next
    case False
    then have yx: "R y x" by (rule gt)
    from Cons.prems have "sorted_wrt R ys" and ys: "\<forall>z \<in> set ys. R y z" by simp_all
    then have "sorted_wrt R (insert_sorted cmp x ys)" using Cons.IH by simp
    moreover have "\<forall>z \<in> set (insert_sorted cmp x ys). R y z"
      using yx ys by (simp add: set_insert_sorted)
    ultimately show ?thesis using False by simp
  qed
qed

lemma sorted_wrt_array_sort:
  assumes "\<And>x y. cmp x y \<le> 0 \<Longrightarrow> R x y"
    and "\<And>x y. \<not> cmp x y \<le> 0 \<Longrightarrow> R y x"
    and "\<And>a b c. R a b \<Longrightarrow> R b c \<Longrightarrow> R a c"
  shows "sorted_wrt R (array_sort cmp xs)"
proof (induction xs)
  case Nil
  show ?case by (simp add: array_sort_Nil)
next
  case (Cons x xs)
  show ?case unfolding array_sort_Cons
    by (rule sorted_wrt_insert_sorted [where R = R]) (fact assms Cons.IH)+
qed

lemma number_difference_le: "number_difference x y \<le> 0 \<longleftrightarrow> x \<le> y"
  by (cases x; cases y) (simp_all add: number_difference_def)

lemma number_difference_same: "number_difference x x = 0"
  by (cases x) (simp_all add: number_difference_def)

lemma compare_files_keys:
  "compare_files lc a b =
     (case sequence_key a of
        Some x \<Rightarrow> (case sequence_key b of Some y \<Rightarrow> number_difference x y | None \<Rightarrow> - 1)
      | None \<Rightarrow> (case sequence_key b of Some y \<Rightarrow> 1 | None \<Rightarrow> lc (file_name a) (file_name b)))"
  by (simp add: compare_files_def sequence_key_def Let_def split: option.split)

lemma key_before_le: "compare_files lc a b \<le> 0 \<Longrightarrow> key_before a b"
  by (simp add: compare_files_keys key_before_def number_difference_le split: option.splits)

lemma key_before_gt: "\<not> compare_files lc a b \<le> 0 \<Longrightarrow> key_before b a"
  by (simp add: compare_files_keys key_before_def number_difference_le split: option.splits)

lemma key_before_trans: "key_before a b \<Longrightarrow> key_before b c \<Longrightarrow> key_before a c"
  by (simp add: key_before_def split: option.splits)

lemma sorted_key_before: "sorted_wrt key_before (sortTranscriptionFiles lc filePaths)"
  unfolding sortTranscriptionFiles_def
  by (rule sorted_wrt_array_sort [OF key_before_le key_before_gt key_before_trans])

text \<open>
  Claim C5: files ordered by their extracted numbers are compared as numbers. In the
  list that \<open>sortTranscriptionFiles\<close> returns, whatever the input, a file with the key
  \<open>m\<close> stands before every file with a greater key \<open>n\<close>; with \<open>m = 2\<close> and \<open>n = 10\<close>,
  the file keyed 10 is placed after the file keyed 2, though \<open>10\<close> is the smaller string.
\<close>

theorem numeric_comparison:
  assumes i: "i < length (sortTranscriptionFiles lc filePaths)"
    and j: "j < length (sortTranscriptionFiles lc filePaths)"
    and ki: "sequence_key (sortTranscriptionFiles lc filePaths ! i) = Some m"
    and kj: "sequence_key (sortTranscriptionFiles lc filePaths ! j) = Some n"
    and mn: "m < n"
  shows "i < j"
proof (rule ccontr)
  let ?r = "sortTranscriptionFiles lc filePaths"
  assume "\<not> i < j"
  moreover have "i \<noteq> j" using ki kj mn by auto
  ultimately have "j < i" by simp
  with i sorted_key_before [of lc filePaths] have "key_before (?r ! j) (?r ! i)"
    by (simp add: sorted_wrt_iff_nth_less)
  with ki kj have "n \<le> m" by (simp add: key_before_def)
  with mn show False by simp
qed

text \<open>
  The files \<open>10.txt\<close> and \<open>2.txt\<close>, handed over in this order.
\<close>

theorem numeric_comparison_witness:
  "0 < length (sortTranscriptionFiles ordinal_collation [utf16 ''10.txt'', utf16 ''2.txt'']) \<and>
   1 < length (sortTranscriptionFiles ordinal_collation [utf16 ''10.txt'', utf16 ''2.txt'']) \<and>
   sequence_key (sortTranscriptionFiles ordinal_collation [utf16 ''10.txt'', utf16 ''2.txt''] ! 0) = Some 2 \<and>
   sequence_key (sortTranscriptionFiles ordinal_collation [utf16 ''10.txt'', utf16 ''2.txt''] ! 1) = Some 10 \<and>
   (2::number) < 10 \<and> (0::nat) < 1 \<and>
   sortTranscriptionFiles ordinal_collation [utf16 ''10.txt'', utf16 ''2.txt''] =
     [utf16 ''2.txt'', utf16 ''10.txt'']"
proof -
  let ?r = "sortTranscriptionFiles ordinal_collation [utf16 ''10.txt'', utf16 ''2.txt'']"
  have r: "?r = [utf16 ''2.txt'', utf16 ''10.txt'']" by code_simp
  have k2: "sequence_key (utf16 ''2.txt'') = Some 2" by code_simp
  have k10: "sequence_key (utf16 ''10.txt'') = Some 10" by code_simp
  have h1: "0 < length ?r" and h2: "1 < length ?r" by (simp_all add: r)
  have h3: "sequence_key (?r ! 0) = Some 2" by (simp add: r k2)
  have h4: "sequence_key (?r ! 1) = Some 10" by (simp add: r k10)
  have h5: "(2::number) < 10" by simp
  from numeric_comparison [OF h1 h2 h3 h4 h5] have "(0::nat) < 1" .
  with h1 h2 h3 h4 h5 r show ?thesis by blast
qed

lemma sorted_keys:
  assumes "\<forall>a \<in> set xs. sequence_key a \<noteq> None" and "sorted_wrt key_before xs"
  shows "sorted (map (\<lambda>a. the (sequence_key a)) xs)"
proof -
  have "sorted_wrt (\<lambda>a b. the (sequence_key a) \<le> the (sequence_key b)) xs"
  proof (rule sorted_wrt_mono_rel [OF _ assms(2)])
    fix a b assume "a \<in> set xs" "b \<in> set xs" "key_before a b"
    with assms(1) show "the (sequence_key a) \<le> the (sequence_key b)"
      by (auto simp: key_before_def split: option.splits)
  qed
  then show ?thesis by (simp add: sorted_map)
qed

text \<open>
  Claim C3, as the code has it: when every file has a sequence number and no two
  different paths have the same one, \<open>sortTranscriptionFiles\<close> returns the same list for
  every permutation of the input.
\<close>

theorem distinct_keys_permutation_invariant:
  assumes keyed: "\<forall>a \<in> set filePaths. sequence_key a \<noteq> None"
    and distinct: "inj_on sequence_key (set filePaths)"
    and perm: "mset permuted = mset filePaths"
  shows "sortTranscriptionFiles lc permuted = sortTranscriptionFiles lc filePaths"
proof -
  let ?f = "\<lambda>a. the (sequence_key a)"
  let ?r = "sortTranscriptionFiles lc filePaths"
  let ?p = "sortTranscriptionFiles lc permuted"
  have mr: "mset ?r = mset filePaths" and mp: "mset ?p = mset filePaths"
    using perm by (simp_all add: sortTranscriptionFiles_def mset_array_sort)
  then have sr: "set ?r = set filePaths" and sp: "set ?p = set filePaths"
    by (metis set_mset_mset)+
  have "sorted (map ?f ?r)" using keyed sr sorted_key_before by (intro sorted_keys) simp_all
  moreover have "sorted (map ?f ?p)" using keyed sp sorted_key_before by (intro sorted_keys) simp_all
  moreover have "mset (map ?f ?p) = mset (map ?f ?r)" using mr mp by simp
  ultimately have eq: "map ?f ?p = map ?f ?r"
    by (metis properties_for_sort)
  have "inj_on ?f (set filePaths)"
  proof (rule inj_onI)
    fix a b assume a: "a \<in> set filePaths" and b: "b \<in> set filePaths" and "?f a = ?f b"
    with keyed have "sequence_key a = sequence_key b" by (metis option.expand)
    with distinct a b show "a = b" by (simp add: inj_on_def)
  qed
  then have "inj_on ?f (set ?p \<union> set ?r)" using sr sp by simp
  with eq show ?thesis by (simp add: inj_on_map_eq_map)
qed

theorem distinct_keys_permutation_invariant_witness:
  "sequence_key (utf16 ''a_2.txt'') = Some 2 \<and>
   sequence_key (utf16 ''b_1.txt'') = Some 1 \<and>
   mset [utf16 ''b_1.txt'', utf16 ''a_2.txt''] = mset [utf16 ''a_2.txt'', utf16 ''b_1.txt''] \<and>
   sortTranscriptionFiles ordinal_collation [utf16 ''b_1.txt'', utf16 ''a_2.txt''] =
     sortTranscriptionFiles ordinal_collation [utf16 ''a_2.txt'', utf16 ''b_1.txt'']"
proof -
  have k2: "sequence_key (utf16 ''a_2.txt'') = Some 2" by code_simp
  have k1: "sequence_key (utf16 ''b_1.txt'') = Some 1" by code_simp
  have h1: "\<forall>a \<in> set [utf16 ''a_2.txt'', utf16 ''b_1.txt'']. sequence_key a \<noteq> None"
    by (simp add: k1 k2)
  have h2: "inj_on sequence_key (set [utf16 ''a_2.txt'', utf16 ''b_1.txt''])"
    by (auto simp: inj_on_def k1 k2)
  have h3: "mset [utf16 ''b_1.txt'', utf16 ''a_2.txt''] = mset [utf16 ''a_2.txt'', utf16 ''b_1.txt'']"
    by simp
  from distinct_keys_permutation_invariant [OF h1 h2 h3, of ordinal_collation] k1 k2 h3
  show ?thesis by blast
qed

text \<open>
  Claim C3 as stated fails where two names have the same key: \<open>1a.txt\<close> and \<open>1b.txt\<close>
  are matched by the fourth pattern alone, both with the key 1, the comparison function
  returns 0 for them, and the stable \<open>sort\<close> leaves them in the order of the input.
\<close>

theorem tie_depends_on_input_order:
  "rule_key pattern1 (utf16 ''1a.txt'') = None \<and> rule_key pattern1 (utf16 ''1b.txt'') = None \<and>
   rule_key pattern2 (utf16 ''1a.txt'') = None \<and> rule_key pattern2 (utf16 ''1b.txt'') = None \<and>
   rule_key pattern3 (utf16 ''1a.txt'') = None \<and> rule_key pattern3 (utf16 ''1b.txt'') = None \<and>
   rule_key pattern4 (utf16 ''1a.txt'') = Some 1 \<and> rule_key pattern4 (utf16 ''1b.txt'') = Some 1 \<and>
   mset [utf16 ''1b.txt'', utf16 ''1a.txt''] = mset [utf16 ''1a.txt'', utf16 ''1b.txt''] \<and>
   sortTranscriptionFiles ordinal_collation [utf16 ''1a.txt'', utf16 ''1b.txt''] =
     [utf16 ''1a.txt'', utf16 ''1b.txt''] \<and>
   sortTranscriptionFiles ordinal_collation [utf16 ''1b.txt'', utf16 ''1a.txt''] =
     [utf16 ''1b.txt'', utf16 ''1a.txt''] \<and>
   sortTranscriptionFiles ordinal_collation [utf16 ''1b.txt'', utf16 ''1a.txt''] \<noteq>
     sortTranscriptionFiles ordinal_collation [utf16 ''1a.txt'', utf16 ''1b.txt'']"
  by code_simp

lemma filter_insert_sorted:
  assumes "P x \<Longrightarrow> \<forall>y \<in> set ys. P y \<longrightarrow> cmp x y \<le> 0"
  shows "filter P (insert_sorted cmp x ys) = (if P x then x # filter P ys else filter P ys)"
  using assms by (induction ys) auto

lemma filter_array_sort:
  assumes "\<And>x y. P x \<Longrightarrow> P y \<Longrightarrow> cmp x y \<le> 0"
  shows "filter P (array_sort cmp xs) = filter P xs"
proof (induction xs)
  case Nil
  show ?case by (simp add: array_sort_Nil)
next
  case (Cons x xs)
  have "filter P (insert_sorted cmp x (array_sort cmp xs)) =
      (if P x then x # filter P (array_sort cmp xs) else filter P (array_sort cmp xs))"
    by (rule filter_insert_sorted) (simp add: assms)
  with Cons.IH show ?case by (simp add: array_sort_Cons)
qed

text \<open>
  Claim C1 as stated fails: \<open>a_1.txt\<close> and \<open>b_1.txt\<close> are different files with the same
  key 1, and the detection returns them, in the order of the input, without an error.
\<close>

theorem tie_is_not_an_error:
  "utf16 ''a_1.txt'' \<noteq> utf16 ''b_1.txt'' \<and>
   sequence_key (utf16 ''a_1.txt'') = Some 1 \<and>
   sequence_key (utf16 ''b_1.txt'') = Some 1 \<and>
   detect_sequence ordinal_collation [utf16 ''a_1.txt'', utf16 ''b_1.txt''] =
     Inr \<lparr>order = [utf16 ''a_1.txt'', utf16 ''b_1.txt''], warnings = []\<rparr>"
  by code_simp

text \<open>
  Claim C1, as the code has it: no outcome of the detection phase aborts the run, a tie
  included. For every input the detection returns a rearrangement of the input in which
  numbers ascend and files without a number come last, and the files that share a number
  keep the order they had in the input.
\<close>

theorem detection_never_aborts:
  "\<exists>d. detect_sequence lc filePaths = Inr d \<and>
       mset (order d) = mset filePaths \<and>
       sorted_wrt key_before (order d) \<and>
       (\<forall>n. filter (\<lambda>a. sequence_key a = Some n) (order d) =
            filter (\<lambda>a. sequence_key a = Some n) filePaths)"
proof -
  let ?r = "sortTranscriptionFiles lc filePaths"
  have "mset ?r = mset filePaths"
    by (simp add: sortTranscriptionFiles_def mset_array_sort)
  moreover have "sorted_wrt key_before ?r" by (rule sorted_key_before)
  moreover have "filter (\<lambda>a. sequence_key a = Some n) ?r =
      filter (\<lambda>a. sequence_key a = Some n) filePaths" for n
    unfolding sortTranscriptionFiles_def
    by (rule filter_array_sort) (simp add: compare_files_keys number_difference_same)
  ultimately show ?thesis by (simp add: detect_sequence_def)
qed

lemma no_digit_no_key:
  assumes "\<not> (\<exists>c \<in> set (remove_extension filename). is_digit c)"
  shows "extractSequenceNumber filename = None"
proof -
  let ?s = "remove_extension filename"
  have "regex_match pattern1 ?s = None"
  proof (cases "regex_match pattern1 ?s")
    case (Some d)
    then have "?s \<noteq> [] \<and> is_digit (last ?s)" by (rule regex_match_pattern1_SomeD)
    then have "last ?s \<in> set ?s" "is_digit (last ?s)" by simp_all
    with assms show ?thesis by blast
  qed simp
  moreover from assms have "regex_match pattern4 ?s = None"
    by (simp add: regex_match_pattern4)
  ultimately show ?thesis
    by (simp add: extract_simplified extractSequenceNumber_simplified_def Let_def)
qed

lemma consistent_file_names:
  assumes "consistent lc"
  shows "consistent (\<lambda>a b. lc (file_name a) (file_name b))"
  using assms unfolding consistent_def by blast

lemma sorted_consistent:
  assumes "consistent cmp"
  shows "sorted_wrt (\<lambda>a b. cmp a b \<le> 0) (array_sort cmp xs)"
proof (rule sorted_wrt_array_sort)
  fix x y assume "\<not> cmp x y \<le> 0"
  then have "0 < cmp x y" by simp
  with assms have "cmp y x < 0" unfolding consistent_def by blast
  then show "cmp y x \<le> 0" by simp
next
  fix a b c assume "cmp a b \<le> 0" "cmp b c \<le> 0"
  with assms show "cmp a c \<le> 0" unfolding consistent_def by blast
qed simp

text \<open>
  Claim C4, as the code has it: when no file name contains a digit before its extension,
  the detection does not fail; it returns the paths sorted by the locale-aware, numeric
  collation of the file names, and with no warning.
\<close>

theorem no_digits_collation_order:
  assumes nodigit: "\<forall>a \<in> set filePaths. \<not> (\<exists>c \<in> set (remove_extension (file_name a)). is_digit c)"
    and lc: "consistent lc"
  shows "\<exists>d. detect_sequence lc filePaths = Inr d \<and>
           warnings d = [] \<and>
           order d = array_sort (\<lambda>a b. lc (file_name a) (file_name b)) filePaths \<and>
           mset (order d) = mset filePaths \<and>
           sorted_wrt (\<lambda>a b. lc (file_name a) (file_name b) \<le> 0) (order d)"
proof -
  let ?cmp = "\<lambda>a b. lc (file_name a) (file_name b)"
  have "\<forall>a \<in> set filePaths. sequence_key a = None"
    using nodigit by (simp add: sequence_key_def no_digit_no_key)
  then have "\<forall>a \<in> set filePaths. \<forall>b \<in> set filePaths. compare_files lc a b = ?cmp a b"
    by (simp add: compare_files_keys)
  then have eq: "sortTranscriptionFiles lc filePaths = array_sort ?cmp filePaths"
    unfolding sortTranscriptionFiles_def by (rule array_sort_cong)
  have "sorted_wrt (\<lambda>a b. ?cmp a b \<le> 0) (array_sort ?cmp filePaths)"
    by (rule sorted_consistent) (rule consistent_file_names [OF lc])
  then show ?thesis
    by (simp add: detect_sequence_def eq mset_array_sort)
qed

lemma consistent_ordinal: "consistent ordinal_collation"
  unfolding consistent_def ordinal_collation_def by auto

theorem no_digits_collation_order_witness:
  "\<exists>d. detect_sequence ordinal_collation [utf16 ''b.md'', utf16 ''a.md''] = Inr d \<and>
       warnings d = [] \<and> order d = [utf16 ''a.md'', utf16 ''b.md'']"
proof -
  have h1: "\<forall>a \<in> set [utf16 ''b.md'', utf16 ''a.md''].
      \<not> (\<exists>c \<in> set (remove_extension (file_name a)). is_digit c)"
    by code_simp
  have v: "array_sort (\<lambda>a b. ordinal_collation (file_name a) (file_name b))
      [utf16 ''b.md'', utf16 ''a.md''] = [utf16 ''a.md'', utf16 ''b.md'']"
    by code_simp
  from no_digits_collation_order [OF h1 consistent_ordinal] v
  show ?thesis by auto
qed

text \<open>
  Claim C4 as stated fails in its warning: for \<open>y.txt\<close> and \<open>x.txt\<close> the caller gets the
  two paths in collation order and nothing else; no low-confidence warning is reported.
\<close>

theorem no_warning_reported:
  "detect_sequence ordinal_collation [utf16 ''y.txt'', utf16 ''x.txt''] =
     Inr \<lparr>order = [utf16 ''x.txt'', utf16 ''y.txt''], warnings = []\<rparr>"
  by code_simp

section \<open>Per-file keys and the rule of the design\<close>

lemma sequence_key_first_matching_rule:
  "sequence_key a =
     (case first_matching_rule a of None \<Rightarrow> None | Some r \<Rightarrow> rule_key (priority_rule r) a)"
  by (simp add: sequence_key_def extractSequenceNumber_def first_matching_rule_def
      rule_key_def priority_rule_def Let_def split: option.splits)

text \<open>
  Claim C2 as stated fails: the first pattern matches \<open>1x5.txt\<close> and not \<open>2y.txt\<close>, the
  first pattern that matches both names is the fourth, which orders \<open>1x5.txt\<close> (key 1)
  before \<open>2y.txt\<close> (key 2); the code keys \<open>1x5.txt\<close> by the first pattern (key 5) and
  returns it after \<open>2y.txt\<close>.
\<close>

theorem partial_rule_decides_order:
  "rule_key pattern1 (utf16 ''1x5.txt'') = Some 5 \<and>
   rule_key pattern1 (utf16 ''2y.txt'') = None \<and>
   \<not> matches_all pattern1 [utf16 ''1x5.txt'', utf16 ''2y.txt''] \<and>
   \<not> matches_all pattern2 [utf16 ''1x5.txt'', utf16 ''2y.txt''] \<and>
   \<not> matches_all pattern3 [utf16 ''1x5.txt'', utf16 ''2y.txt''] \<and>
   matches_all pattern4 [utf16 ''1x5.txt'', utf16 ''2y.txt''] \<and>
   rule_key pattern4 (utf16 ''1x5.txt'') = Some 1 \<and>
   rule_key pattern4 (utf16 ''2y.txt'') = Some 2 \<and>
   order_by_common_rule ordinal_collation [utf16 ''1x5.txt'', utf16 ''2y.txt''] =
     [utf16 ''1x5.txt'', utf16 ''2y.txt''] \<and>
   sortTranscriptionFiles ordinal_collation [utf16 ''1x5.txt'', utf16 ''2y.txt''] =
     [utf16 ''2y.txt'', utf16 ''1x5.txt'']"
  by code_simp

lemma rule_key_pattern1_subsumes:
  assumes "rule_key pattern1 a = None"
  shows "rule_key pattern2 a = None \<and> rule_key pattern3 a = None"
proof -
  from assms have "regex_match pattern1 (remove_extension (file_name a)) = None"
    by (simp add: rule_key_def split: option.splits)
  from pattern1_None_imp [OF this] show ?thesis by (simp add: rule_key_def)
qed

lemma sequence_key_rules:
  "sequence_key a =
     (case rule_key pattern1 a of Some n \<Rightarrow> Some n | None \<Rightarrow> rule_key pattern4 a)"
  by (simp add: sequence_key_def extract_simplified extractSequenceNumber_simplified_def
      rule_key_def Let_def split: option.splits)

lemma first_matching_rule_cases:
  "first_matching_rule a =
     (if rule_key pattern1 a \<noteq> None then Some 1
      else if rule_key pattern4 a \<noteq> None then Some 4 else None)"
  using rule_key_pattern1_subsumes [of a] by (auto simp: first_matching_rule_def)

lemma compare_same_rule:
  assumes "sequence_key a = rule_key p a" and "sequence_key b = rule_key p b"
    and "rule_key p a \<noteq> None" and "rule_key p b \<noteq> None"
  shows "compare_files lc a b = compare_by_rule p a b"
  using assms by (auto simp: compare_files_keys compare_by_rule_def)

lemma same_first_rule_common_order:
  assumes same: "\<forall>a \<in> set filePaths. \<forall>b \<in> set filePaths.
      first_matching_rule a = first_matching_rule b"
  shows "sortTranscriptionFiles lc filePaths = order_by_common_rule lc filePaths"
proof (cases filePaths)
  case Nil
  then show ?thesis
    by (simp add: sortTranscriptionFiles_def order_by_common_rule_def array_sort_Nil)
next
  case (Cons f fs)
  then have f: "f \<in> set filePaths" by simp
  from same f have all: "\<forall>a \<in> set filePaths. first_matching_rule a = first_matching_rule f"
    by blast
  consider (one) "rule_key pattern1 f \<noteq> None"
    | (four) "rule_key pattern1 f = None" "rule_key pattern4 f \<noteq> None"
    | (none) "rule_key pattern1 f = None" "rule_key pattern4 f = None"
    by blast
  then show ?thesis
  proof cases
    case one
    then have "first_matching_rule f = Some 1" by (simp add: first_matching_rule_cases)
    with all have k: "\<forall>a \<in> set filePaths. rule_key pattern1 a \<noteq> None"
      by (auto simp: first_matching_rule_cases split: if_splits)
    then have m: "matches_all pattern1 filePaths"
      by (simp add: matches_all_def list_all_iff)
    have "\<forall>a \<in> set filePaths. \<forall>b \<in> set filePaths.
        compare_files lc a b = compare_by_rule pattern1 a b"
      using k by (auto intro!: compare_same_rule simp: sequence_key_rules)
    then have "array_sort (compare_files lc) filePaths =
        array_sort (compare_by_rule pattern1) filePaths"
      by (rule array_sort_cong)
    with m show ?thesis
      by (simp add: sortTranscriptionFiles_def order_by_common_rule_def)
  next
    case four
    then have "first_matching_rule f = Some 4" by (simp add: first_matching_rule_cases)
    with all have k: "\<forall>a \<in> set filePaths. rule_key pattern1 a = None \<and> rule_key pattern4 a \<noteq> None"
      by (auto simp: first_matching_rule_cases split: if_splits)
    with f have n1: "\<not> matches_all pattern1 filePaths"
      by (auto simp: matches_all_def list_all_iff)
    from k f rule_key_pattern1_subsumes have n2: "\<not> matches_all pattern2 filePaths"
      and n3: "\<not> matches_all pattern3 filePaths"
      by (auto simp: matches_all_def list_all_iff)
    from k have m: "matches_all pattern4 filePaths"
      by (simp add: matches_all_def list_all_iff)
    have "\<forall>a \<in> set filePaths. \<forall>b \<in> set filePaths.
        compare_files lc a b = compare_by_rule pattern4 a b"
      using k by (auto intro!: compare_same_rule simp: sequence_key_rules)
    then have "array_sort (compare_files lc) filePaths =
        array_sort (compare_by_rule pattern4) filePaths"
      by (rule array_sort_cong)
    with n1 n2 n3 m show ?thesis
      by (simp add: sortTranscriptionFiles_def order_by_common_rule_def)
  next
    case none
    then have "first_matching_rule f = None" by (simp add: first_matching_rule_cases)
    with all have k: "\<forall>a \<in> set filePaths. rule_key pattern1 a = None \<and> rule_key pattern4 a = None"
      by (auto simp: first_matching_rule_cases split: if_splits)
    with f have n1: "\<not> matches_all pattern1 filePaths" and n4: "\<not> matches_all pattern4 filePaths"
      by (auto simp: matches_all_def list_all_iff)
    from k f rule_key_pattern1_subsumes have n2: "\<not> matches_all pattern2 filePaths"
      and n3: "\<not> matches_all pattern3 filePaths"
      by (auto simp: matches_all_def list_all_iff)
    have "\<forall>a \<in> set filePaths. \<forall>b \<in> set filePaths.
        compare_files lc a b = lc (file_name a) (file_name b)"
      using k by (simp add: compare_files_keys sequence_key_rules)
    then have "array_sort (compare_files lc) filePaths =
        array_sort (\<lambda>a b. lc (file_name a) (file_name b)) filePaths"
      by (rule array_sort_cong)
    with n1 n2 n3 n4 show ?thesis
      by (simp add: sortTranscriptionFiles_def order_by_common_rule_def)
  qed
qed

text \<open>
  Claim C2, as the code has it: the patterns are tried in priority order for each file
  name on its own, and the key of a file is what the first pattern that matches this file
  captures, whether or not that pattern matches the other names. When the first matching
  pattern is the same for all the files (or no pattern matches any of them), the result is
  the order given by the first pattern that matches all names.
\<close>

theorem own_first_rule_keys_each_file:
  "sequence_key a =
     (case first_matching_rule a of
        None \<Rightarrow> None | Some r \<Rightarrow> rule_key (priority_rule r) a) \<and>
   ((\<forall>a \<in> set filePaths. \<forall>b \<in> set filePaths.
        first_matching_rule a = first_matching_rule b) \<longrightarrow>
      sortTranscriptionFiles lc filePaths = order_by_common_rule lc filePaths)"
  using sequence_key_first_matching_rule same_first_rule_common_order by blast

theorem own_first_rule_keys_each_file_witness:
  "first_matching_rule (utf16 ''b2.txt'') = Some 1 \<and>
   first_matching_rule (utf16 ''a1.txt'') = Some 1 \<and>
   sortTranscriptionFiles ordinal_collation [utf16 ''b2.txt'', utf16 ''a1.txt''] =
     order_by_common_rule ordinal_collation [utf16 ''b2.txt'', utf16 ''a1.txt''] \<and>
   order_by_common_rule ordinal_collation [utf16 ''b2.txt'', utf16 ''a1.txt''] =
     [utf16 ''a1.txt'', utf16 ''b2.txt'']"
proof -
  have h: "\<forall>a \<in> set [utf16 ''b2.txt'', utf16 ''a1.txt''].
      \<forall>b \<in> set [utf16 ''b2.txt'', utf16 ''a1.txt''].
        first_matching_rule a = first_matching_rule b"
    by code_simp
  have v: "order_by_common_rule ordinal_collation [utf16 ''b2.txt'', utf16 ''a1.txt''] =
      [utf16 ''a1.txt'', utf16 ''b2.txt'']"
    by code_simp
  have r: "first_matching_rule (utf16 ''b2.txt'') = Some 1"
    "first_matching_rule (utf16 ''a1.txt'') = Some 1"
    by code_simp+
  from own_first_rule_keys_each_file
    [of "utf16 ''b2.txt''" "[utf16 ''b2.txt'', utf16 ''a1.txt'']" ordinal_collation] h
  have "sortTranscriptionFiles ordinal_collation [utf16 ''b2.txt'', utf16 ''a1.txt''] =
      order_by_common_rule ordinal_collation [utf16 ''b2.txt'', utf16 ''a1.txt'']"
    by blast
  with r v show ?thesis by blast
qed

section \<open>Properties of the reordering\<close>

lemma split_adjacent:
  assumes "Suc k < length xs"
  shows "xs = take k xs @ xs ! k # xs ! Suc k # drop (Suc (Suc k)) xs"
proof -
  from assms have "k < length xs" by simp
  then have "xs = take k xs @ xs ! k # drop (Suc k) xs" by (rule id_take_nth_drop)
  moreover from assms have "drop (Suc k) xs = xs ! Suc k # drop (Suc (Suc k)) xs"
    by (simp add: Cons_nth_drop_Suc)
  ultimately show ?thesis by simp
qed

lemma update_adjacent:
  "(as @ p # q # bs)[length as := q, Suc (length as) := p] = as @ q # p # bs"
  by (simp add: list_update_append)

lemma nat_int_Suc: "nat (1 + int n) = Suc n" "nat (int n + 1) = Suc n"
  by simp_all

lemma moveFileUp_adjacent:
  "moveFileUp (int (Suc (length as))) (as @ p # q # bs) = as @ q # p # bs"
  by (simp add: moveFileUp_def element_at_def splice_insert_def splice_remove_def
      splice_start_def nth_append Let_def nat_int_Suc)

lemma moveFileDown_adjacent:
  "moveFileDown (int (length as)) (as @ p # q # bs) = as @ q # p # bs"
  by (simp add: moveFileDown_def element_at_def splice_insert_def splice_remove_def
      splice_start_def nth_append Let_def nat_int_Suc)

lemma moveFileUp_swaps:
  assumes "0 < i" and "i < length files"
  shows "moveFileUp (int i) files = files[i - 1 := files ! i, i := files ! (i - 1)]"
proof -
  from assms obtain k where i: "i = Suc k" by (cases i) auto
  let ?as = "take k files"
  from assms i have "Suc k < length files" by simp
  then have f: "files = ?as @ files ! k # files ! Suc k # drop (Suc (Suc k)) files"
    by (rule split_adjacent)
  from assms i have len: "length ?as = k" by simp
  have "moveFileUp (int (Suc (length ?as))) (?as @ files ! k # files ! Suc k # drop (Suc (Suc k)) files)
      = ?as @ files ! Suc k # files ! k # drop (Suc (Suc k)) files"
    by (rule moveFileUp_adjacent)
  moreover have "(?as @ files ! k # files ! Suc k # drop (Suc (Suc k)) files)
      [length ?as := files ! Suc k, Suc (length ?as) := files ! k]
      = ?as @ files ! Suc k # files ! k # drop (Suc (Suc k)) files"
    by (rule update_adjacent)
  ultimately show ?thesis using f len i by simp
qed

lemma moveFileDown_swaps:
  assumes "Suc i < length files"
  shows "moveFileDown (int i) files = files[i := files ! Suc i, Suc i := files ! i]"
proof -
  let ?as = "take i files"
  from assms have f: "files = ?as @ files ! i # files ! Suc i # drop (Suc (Suc i)) files"
    by (rule split_adjacent)
  from assms have len: "length ?as = i" by simp
  have "moveFileDown (int (length ?as)) (?as @ files ! i # files ! Suc i # drop (Suc (Suc i)) files)
      = ?as @ files ! Suc i # files ! i # drop (Suc (Suc i)) files"
    by (rule moveFileDown_adjacent)
  moreover have "(?as @ files ! i # files ! Suc i # drop (Suc (Suc i)) files)
      [length ?as := files ! Suc i, Suc (length ?as) := files ! i]
      = ?as @ files ! Suc i # files ! i # drop (Suc (Suc i)) files"
    by (rule update_adjacent)
  ultimately show ?thesis using f len by simp
qed

text \<open>
  Claim C10, as the code has it: for every list and every index within the list (from 0
  to the last index), \<open>moveFileUp\<close> and
  \<open>moveFileDown\<close> keep the length and the entries of \<open>transcriptionFiles\<close>; the entry at
  the index changes places with the entry before it (\<open>moveFileUp\<close>) or after it
  (\<open>moveFileDown\<close>), and \<open>moveFileUp\<close> with index 0 and \<open>moveFileDown\<close> with the last
  index leave the list as it is.
\<close>

theorem move_file_swaps_neighbours:
  assumes "0 \<le> index" and "index < int (length files)"
  shows "length (moveFileUp index files) = length files \<and>
         mset (moveFileUp index files) = mset files \<and>
         (0 < index \<longrightarrow> moveFileUp index files =
            files[nat index - 1 := files ! nat index, nat index := files ! (nat index - 1)]) \<and>
         (index = 0 \<longrightarrow> moveFileUp index files = files) \<and>
         length (moveFileDown index files) = length files \<and>
         mset (moveFileDown index files) = mset files \<and>
         (index < int (length files) - 1 \<longrightarrow> moveFileDown index files =
            files[nat index := files ! Suc (nat index), Suc (nat index) := files ! nat index]) \<and>
         (index = int (length files) - 1 \<longrightarrow> moveFileDown index files = files)"
proof -
  define i where "i = nat index"
  with assms have index: "index = int i" and i: "i < length files" by simp_all
  have up0: "moveFileUp index files = files" if "index = 0"
    using that by (simp add: moveFileUp_def)
  have up: "moveFileUp index files = files[i - 1 := files ! i, i := files ! (i - 1)]"
    if "0 < index"
    using that i unfolding index by (intro moveFileUp_swaps) simp_all
  have down0: "moveFileDown index files = files" if "index = int (length files) - 1"
    using that by (simp add: moveFileDown_def)
  have down: "moveFileDown index files = files[i := files ! Suc i, Suc i := files ! i]"
    if "index < int (length files) - 1"
    using that unfolding index by (intro moveFileDown_swaps) simp
  have len_up: "length (moveFileUp index files) = length files"
    using up up0 assms(1) by (cases "index = 0") simp_all
  have mset_up: "mset (moveFileUp index files) = mset files"
  proof (cases "index = 0")
    case True
    then have "moveFileUp index files = files" by (rule up0)
    then show ?thesis by simp
  next
    case False
    with assms(1) have "0 < index" by simp
    then have "moveFileUp index files = files[i - 1 := files ! i, i := files ! (i - 1)]"
      by (rule up)
    moreover have "mset (files[i - 1 := files ! i, i := files ! (i - 1)]) = mset files"
      using i by (intro mset_swap) simp_all
    ultimately show ?thesis by simp
  qed
  have len_down: "length (moveFileDown index files) = length files"
    using down down0 assms(2) by (cases "index = int (length files) - 1") simp_all
  have mset_down: "mset (moveFileDown index files) = mset files"
  proof (cases "index = int (length files) - 1")
    case True
    then have "moveFileDown index files = files" by (rule down0)
    then show ?thesis by simp
  next
    case False
    with assms(2) have lt: "index < int (length files) - 1" by simp
    then have "moveFileDown index files = files[i := files ! Suc i, Suc i := files ! i]"
      by (rule down)
    moreover have "mset (files[i := files ! Suc i, Suc i := files ! i]) = mset files"
      using lt unfolding index by (intro mset_swap) simp_all
    ultimately show ?thesis by simp
  qed
  from up up0 down down0 len_up mset_up len_down mset_down show ?thesis
    unfolding i_def by blast
qed

theorem move_file_swaps_neighbours_witness:
  "(0::int) \<le> 1 \<and>
   1 < int (length [Some (utf16 ''a.txt''), Some (utf16 ''b.txt''), Some (utf16 ''c.txt'')]) \<and>
   moveFileUp 1 [Some (utf16 ''a.txt''), Some (utf16 ''b.txt''), Some (utf16 ''c.txt'')] =
     [Some (utf16 ''b.txt''), Some (utf16 ''a.txt''), Some (utf16 ''c.txt'')] \<and>
   moveFileDown 1 [Some (utf16 ''a.txt''), Some (utf16 ''b.txt''), Some (utf16 ''c.txt'')] =
     [Some (utf16 ''a.txt''), Some (utf16 ''c.txt''), Some (utf16 ''b.txt'')]"
proof -
  let ?files = "[Some (utf16 ''a.txt''), Some (utf16 ''b.txt''), Some (utf16 ''c.txt'')]"
  have h1: "(0::int) \<le> 1" by simp
  have h2: "1 < int (length ?files)" by simp
  from move_file_swaps_neighbours [OF h1 h2] h1 h2 show ?thesis by simp
qed

text \<open>
  Claim C10 as stated, for every index, fails outside of the list: \<open>moveFileUp\<close> has no
  upper guard and \<open>moveFileDown\<close> no lower one, and \<open>splice\<close> stores the \<open>undefined\<close>
  that was read there. With three entries, \<open>moveFileUp(3)\<close> gives four entries, and
  \<open>moveFileDown(-1)\<close> replaces the last entry by \<open>undefined\<close> at the front.
\<close>

theorem move_file_outside_of_the_list:
  "moveFileUp 3 [Some (utf16 ''a.txt''), Some (utf16 ''b.txt''), Some (utf16 ''c.txt'')] =
     [Some (utf16 ''a.txt''), Some (utf16 ''b.txt''), None, Some (utf16 ''c.txt'')] \<and>
   length (moveFileUp 3 [Some (utf16 ''a.txt''), Some (utf16 ''b.txt''), Some (utf16 ''c.txt'')]) \<noteq>
     length [Some (utf16 ''a.txt''), Some (utf16 ''b.txt''), Some (utf16 ''c.txt'')] \<and>
   moveFileDown (- 1) [Some (utf16 ''a.txt''), Some (utf16 ''b.txt''), Some (utf16 ''c.txt'')] =
     [None, Some (utf16 ''a.txt''), Some (utf16 ''b.txt'')] \<and>
   mset (moveFileDown (- 1) [Some (utf16 ''a.txt''), Some (utf16 ''b.txt''), Some (utf16 ''c.txt'')]) \<noteq>
     mset [Some (utf16 ''a.txt''), Some (utf16 ''b.txt''), Some (utf16 ''c.txt'')]"
  by (simp add: moveFileUp_def moveFileDown_def element_at_def splice_insert_def
      splice_remove_def splice_start_def Let_def)

section \<open>Properties of the merge engine\<close>

lemma length_running_offsets: "length (running_offsets acc ds) = length ds"
  by (induction ds arbitrary: acc) simp_all

lemma nth_running_offsets:
  "i < length ds \<Longrightarrow> running_offsets acc ds ! i = acc + sum_list (take i ds)"
proof (induction ds arbitrary: acc i)
  case Nil
  then show ?case by simp
next
  case (Cons d ds)
  show ?case
  proof (cases i)
    case 0
    then show ?thesis by simp
  next
    case (Suc k)
    with Cons.prems have "k < length ds" by simp
    then have "running_offsets (acc + d) ds ! k = acc + d + sum_list (take k ds)"
      by (rule Cons.IH)
    with Suc show ?thesis by simp
  qed
qed

lemma nth_offset_accumulator:
  assumes "i < length files"
  shows "offset_accumulator files ! i =
     (case snd (files ! i) of None \<Rightarrow> sum_list (map fst (take i files)) | Some m \<Rightarrow> m)"
  using assms
  by (simp add: offset_accumulator_def length_running_offsets nth_running_offsets take_map)

text \<open>
  Claim C6, as the design has it: a file without a manual offset gets the sum of the
  resolved durations of the files before it; and in a run without manual offsets, the
  offset of the first file is 0 and each later offset is the offset before it plus the
  duration before it.
\<close>

theorem offsets_without_override:
  "(\<forall>i < length files. snd (files ! i) = None \<longrightarrow>
      offset_accumulator files ! i = sum_list (map fst (take i files))) \<and>
   ((\<forall>f \<in> set files. snd f = None) \<longrightarrow>
      (files \<noteq> [] \<longrightarrow> offset_accumulator files ! 0 = 0) \<and>
      (\<forall>i. 0 < i \<and> i < length files \<longrightarrow>
         offset_accumulator files ! i =
           offset_accumulator files ! (i - 1) + fst (files ! (i - 1))))"
proof -
  have a: "offset_accumulator files ! i = sum_list (map fst (take i files))"
    if "i < length files" "snd (files ! i) = None" for i
    using that by (simp add: nth_offset_accumulator)
  have b: "offset_accumulator files ! i =
      offset_accumulator files ! (i - 1) + fst (files ! (i - 1))"
    if none: "\<forall>f \<in> set files. snd f = None" and i: "0 < i" "i < length files" for i
  proof -
    from i obtain k where k: "i = Suc k" by (cases i) auto
    with i have kl: "k < length files" by simp
    from none i kl have "snd (files ! i) = None" "snd (files ! k) = None" by simp_all
    with i kl have "offset_accumulator files ! i = sum_list (map fst (take i files))"
      and "offset_accumulator files ! k = sum_list (map fst (take k files))"
      by (simp_all add: a)
    moreover have "take (Suc k) files = take k files @ [files ! k]"
      using kl by (rule take_Suc_conv_app_nth)
    ultimately show ?thesis using k by simp
  qed
  have c: "offset_accumulator files ! 0 = 0"
    if "\<forall>f \<in> set files. snd f = None" "files \<noteq> []"
    using that a [of 0] by simp
  from a b c show ?thesis by blast
qed

theorem offsets_without_override_witness:
  "offset_accumulator [(4000, None), (3000, None), (2000, None)] ! 0 = 0 \<and>
   offset_accumulator [(4000, None), (3000, None), (2000, None)] ! 1 = 4000 \<and>
   offset_accumulator [(4000, None), (3000, None), (2000, None)] ! 2 = 7000"
proof -
  let ?files = "[(4000, None), (3000, None), (2000::nat, None :: nat option)]"
  have h: "\<forall>f \<in> set ?files. snd f = None" by simp
  note t = offsets_without_override [of ?files]
  from t h have o0: "offset_accumulator ?files ! 0 = 0" by simp
  from t h have "offset_accumulator ?files ! 1 = offset_accumulator ?files ! (1 - 1) + fst (?files ! (1 - 1))"
    by simp
  with o0 have o1: "offset_accumulator ?files ! 1 = 4000" by simp
  from t h have "offset_accumulator ?files ! 2 = offset_accumulator ?files ! (2 - 1) + fst (?files ! (2 - 1))"
    by simp
  with o1 have o2: "offset_accumulator ?files ! 2 = 7000" by simp
  from o0 o1 o2 show ?thesis by blast
qed

text \<open>
  Claim C6 as stated fails for a run with a manual offset: the second file's offset is
  the manual 500, not the 4000 of the running sum.
\<close>

theorem manual_offset_breaks_running_sum:
  "offset_accumulator [(4000, None), (3000, Some 500)] = [0, 500] \<and>
   offset_accumulator [(4000, None), (3000, Some 500)] ! 1 \<noteq>
     offset_accumulator [(4000, None), (3000, Some 500)] ! 0 + fst ([(4000, None), (3000, Some (500::nat))] ! 0)"
  by (simp add: offset_accumulator_def)

lemma scenario_parse:
  "parse_lines (file_content a_1_srt) ([], []) =
     ([\<lparr>block_start = 0, block_end = Some 4000, block_text = [''Hello'']\<rparr>], [])"
  "parse_lines (file_content a_2_srt) ([], []) =
     ([\<lparr>block_start = 0, block_end = Some 3000, block_text = [''World'']\<rparr>], [])"
  by code_simp+

lemma scenario_compare:
  "compare_files lc (file_identifier a_1_srt) (file_identifier a_2_srt) = - 1"
  "compare_files lc (file_identifier a_2_srt) (file_identifier a_1_srt) = 1"
  by code_simp+

lemma scenario_options:
  "duration_hint a_1_srt = None" "manual_offset a_1_srt = None"
  "duration_hint a_2_srt = None" "manual_offset a_2_srt = None"
  by (simp_all add: a_1_srt_def a_2_srt_def)

lemma scenario_format:
  "format_srt_time 0 = ''00:00:00,000''"
  "format_srt_time 4000 = ''00:00:04,000''"
  "format_srt_time 7000 = ''00:00:07,000''"
  by (simp_all add: format_srt_time_def two_digits_def three_digits_def digit_char_def)

lemma scenario_merge:
  "detect_and_merge lc 0 [a_1_srt, a_2_srt] =
     \<lparr>document_blocks =
        [\<lparr>block_start = 0, block_end = Some 4000, block_text = [''Hello'']\<rparr>,
         \<lparr>block_start = 4000, block_end = Some 7000, block_text = [''World'']\<rparr>],
      document_warnings = []\<rparr>"
  by (simp add: detect_and_merge_def array_sort_Cons array_sort_Nil scenario_compare
      scenario_parse scenario_options resolve_duration_def List.map_filter_def
      offset_accumulator_def shift_block_def Let_def)

lemma scenario_merge_reversed:
  "detect_and_merge lc 0 [a_2_srt, a_1_srt] =
     \<lparr>document_blocks =
        [\<lparr>block_start = 0, block_end = Some 4000, block_text = [''Hello'']\<rparr>,
         \<lparr>block_start = 4000, block_end = Some 7000, block_text = [''World'']\<rparr>],
      document_warnings = []\<rparr>"
  by (simp add: detect_and_merge_def array_sort_Cons array_sort_Nil scenario_compare
      scenario_parse scenario_options resolve_duration_def List.map_filter_def
      offset_accumulator_def shift_block_def Let_def)

text \<open>
  Claim C7: merging \<open>a_1.srt\<close> (one block from 00:00:00,000 to 00:00:04,000, "Hello") and
  \<open>a_2.srt\<close> (one block from 00:00:00,000 to 00:00:03,000, "World") without hints gives a
  document whose first block runs from 00:00:00,000 to 00:00:04,000 with the text "Hello"
  and whose second block runs from 00:00:04,000 to 00:00:07,000 with the text "World",
  in whichever order the two files are handed over.
\<close>

theorem two_srt_files_scenario:
  "detect_and_merge lc 0 [a_1_srt, a_2_srt] =
     \<lparr>document_blocks =
        [\<lparr>block_start = 0, block_end = Some 4000, block_text = [''Hello'']\<rparr>,
         \<lparr>block_start = 4000, block_end = Some 7000, block_text = [''World'']\<rparr>],
      document_warnings = []\<rparr> \<and>
   detect_and_merge lc 0 [a_2_srt, a_1_srt] = detect_and_merge lc 0 [a_1_srt, a_2_srt] \<and>
   map (\<lambda>b. (format_srt_time (block_start b), map_option format_srt_time (block_end b),
              block_text b))
     (document_blocks (detect_and_merge lc 0 [a_1_srt, a_2_srt])) =
     [(''00:00:00,000'', Some ''00:00:04,000'', [''Hello'']),
      (''00:00:04,000'', Some ''00:00:07,000'', [''World''])]"
  by (simp add: scenario_merge scenario_merge_reversed scenario_format)

end
